theory Spec2Isabelle
  imports Complex_Main "HOL-Library.Word"
begin

section \<open>Data model\<close>

text \<open>
  The two wake-word scripts, \<^verbatim>\<open>src/python/openwakeword_server.py\<close> (the server variant)
  and \<^verbatim>\<open>src/scripts/openwakeword-detector.py\<close> (the detector variant), read raw PCM
  bytes from standard input, cut them into frames of 1280 samples, score every frame with
  an openWakeWord model and print one JSON record per event.

  Bytes are 8-bit words, a \<^verbatim>\<open>bytes\<close> value is a list of them. A Python float is
  modelled by the real number it denotes (NaN and the infinities are left out), an
  exception by its message \<^verbatim>\<open>str(e)\<close>.
\<close>

type_synonym byte = "8 word"
type_synonym bytes = "byte list"

definition CHUNK_SIZE :: nat where
  "CHUNK_SIZE = 1280"

text \<open>\<^verbatim>\<open>frame_size = CHUNK_SIZE * 2\<close> in the server, \<^verbatim>\<open>bytes_per_chunk = CHUNK_SIZE * 2\<close>
  in the detector.\<close>

definition frame_size :: nat where
  "frame_size = CHUNK_SIZE * 2"

definition bytes_per_chunk :: nat where
  "bytes_per_chunk = CHUNK_SIZE * 2"

subsection \<open>The sample decoder\<close>

text \<open>
  \<^verbatim>\<open>np.frombuffer(frame, dtype=np.int16).astype(np.float32) / 32768.0\<close>.
  \<^verbatim>\<open>frombuffer\<close> reads two bytes per sample, low byte first (the byte order of the
  hosts the scripts run on), and raises ValueError when the buffer is not a whole number
  of samples. A 16-bit integer is exactly representable in binary32 and dividing it by
  \<open>2 ^ 15\<close> only changes the exponent, so the float32 result is the exact quotient.
\<close>

fun int16_le :: "bytes \<Rightarrow> 16 word list" where
  "int16_le (lo # hi # rest) = word_cat hi lo # int16_le rest"
| "int16_le rest = []"

definition frombuffer_int16 :: "bytes \<Rightarrow> string + 16 word list" where
  "frombuffer_int16 b =
     (if length b mod 2 = 0 then Inr (int16_le b)
      else Inl ''buffer size must be a multiple of element size'')"

definition normalize_sample :: "16 word \<Rightarrow> real" where
  "normalize_sample w = real_of_int (sint w) / 32768"

definition decode :: "bytes \<Rightarrow> string + real list" where
  "decode frame =
     (case frombuffer_int16 frame of
        Inl e \<Rightarrow> Inl e
      | Inr samples \<Rightarrow> Inr (map normalize_sample samples))"

text \<open>The value of a little-endian pair of bytes read as a two's complement number,
  written with integer arithmetic only.\<close>

definition int16_value :: "byte \<Rightarrow> byte \<Rightarrow> int" where
  "int16_value lo hi =
     (let u = int (unat lo) + 256 * int (unat hi)
      in if u < 32768 then u else u - 65536)"

text \<open>Modelled from the spec: the re-quantizer is not part of the repository. The spec's
  round-trip property multiplies a normalized sample by 32768 and rounds the product back
  to a 16-bit integer.\<close>

definition requantize :: "real \<Rightarrow> 16 word" where
  "requantize y = word_of_int (round (y * 32768))"

subsection \<open>Records printed on standard output\<close>

datatype feature = Vad real | Speex_ns

datatype event =
    Status_error string
  | Install_error
  | Error_record string
  | Server_ready string real nat
  | Detector_ready string real "feature list"
  | Debug_loading bool string string real
  | Debug_score string real
  | Wakeword string real
  | Detected string real
  | Debug nat real
  | Error_event string
  | Stopped
  | Help_text

text \<open>
  \<^item> \<open>Status_error m\<close> is \<^verbatim>\<open>{"status": "error", "message": m}\<close> (server start-up),
  \<^item> \<open>Install_error\<close> is \<^verbatim>\<open>{"error": "openwakeword not installed", "install": ...}\<close>,
  \<^item> \<open>Error_record m\<close> is \<^verbatim>\<open>{"error": m}\<close> (detector),
  \<^item> \<open>Server_ready model threshold chunk_size\<close> and \<open>Detector_ready model threshold features\<close>
    are the two \<^verbatim>\<open>{"status": "ready", ...}\<close> records,
  \<^item> \<open>Debug_loading custom name framework vad\<close> and \<open>Debug_score name score\<close> are the
    detector's \<^verbatim>\<open>{"debug": text}\<close> records (the text formats these values),
  \<^item> \<open>Wakeword keyword score\<close> is \<^verbatim>\<open>{"event": "wakeword", "keyword": .., "score": ..}\<close>,
  \<^item> \<open>Detected model score\<close> is \<^verbatim>\<open>{"detected": true, "model": .., "score": ..}\<close>,
  \<^item> \<open>Debug frames max_score\<close> is \<^verbatim>\<open>{"event": "debug", "frames": .., "max_score": ..}\<close>,
  \<^item> \<open>Error_event m\<close> is \<^verbatim>\<open>{"event": "error", "message": m}\<close> (server),
  \<^item> \<open>Stopped\<close> is \<^verbatim>\<open>{"status": "stopped"}\<close>,
  \<^item> \<open>Help_text\<close> is the help text that \<^verbatim>\<open>argparse\<close> prints for \<^verbatim>\<open>-h\<close> (the detector); it is
    no JSON record.
\<close>

subsection \<open>The scoring capability\<close>

text \<open>
  The openWakeWord model is external. It is a state of some type \<open>'m\<close> with two
  operations: \<open>predict\<close> takes the state and a normalized frame and either raises or returns
  the items of the prediction dictionary in iteration order, together with the new state;
  \<open>reset\<close> is \<^verbatim>\<open>model.reset()\<close>.
\<close>

record ('m, 'v) scoring =
  predict :: "'m \<Rightarrow> real list \<Rightarrow> (string + (string \<times> 'v) list) \<times> 'm"
  reset :: "'m \<Rightarrow> 'm"

text \<open>The server accepts a score that is a number or a sequence of numbers
  (\<^verbatim>\<open>float(scores[-1]) if hasattr(scores, '__len__') else float(scores)\<close>); indexing an
  empty sequence raises IndexError.\<close>

datatype score_value = Scalar real | Series "real list"

fun latest_score :: "score_value \<Rightarrow> string + real" where
  "latest_score (Scalar x) = Inr x"
| "latest_score (Series xs) =
     (if xs = [] then Inl ''index -1 is out of bounds for axis 0 with size 0''
      else Inr (last xs))"

subsection \<open>Engine state\<close>

text \<open>
  \<open>stdout\<close> is the list of records printed so far, oldest first. \<open>extracted\<close> and, in
  the server, \<open>observed\<close> are history variables: the frames sliced off the buffer so far,
  oldest first, and the scores the loop has read so far, each with the number
  (\<open>frames_processed\<close>) of the frame it was returned for. No branch of the program model
  reads them; they only let theorems speak about the frames and the scores.
\<close>

record trace =
  stdout :: "event list"
  extracted :: "bytes list"

definition emit :: "event \<Rightarrow> 'a trace_scheme \<Rightarrow> 'a trace_scheme" where
  "emit e s = s\<lparr>stdout := stdout s @ [e]\<rparr>"

record 'm server_state = trace +
  audio_buffer :: bytes
  frames_processed :: nat
  max_score :: real
  model :: 'm
  observed :: "(nat \<times> real) list"

record 'm detector_state = trace +
  buffer :: bytes
  oww_model :: 'm

section \<open>The server variant\<close>

text \<open>\<^verbatim>\<open>round(max_score, 3)\<close>: Python rounds the exact value to three decimals, ties to
  even; the record holds the double nearest to this number.\<close>

definition round_half_even :: "real \<Rightarrow> int" where
  "round_half_even x =
     (let f = \<lfloor>x\<rfloor>; d = x - of_int f
      in if d < 1 / 2 then f else if 1 / 2 < d then f + 1 else if even f then f else f + 1)"

definition py_round3 :: "real \<Rightarrow> real" where
  "py_round3 x = of_int (round_half_even (x * 1000)) / 1000"

text \<open>Lines 107-124 of the server: the loop over \<^verbatim>\<open>prediction.items()\<close>. The result is
  the exception that left the loop, if any, and the state reached.\<close>

fun server_check ::
  "('m, score_value) scoring \<Rightarrow> real \<Rightarrow> (string \<times> score_value) list \<Rightarrow>
     'm server_state \<Rightarrow> string option \<times> 'm server_state" where
  "server_check cap threshold [] s = (None, s)"
| "server_check cap threshold ((name, scores) # rest) s =
     (case latest_score scores of
        Inl e \<Rightarrow> (Some e, s)
      | Inr score \<Rightarrow>
          (let s0 = s\<lparr>observed := observed s @ [(frames_processed s, score)]\<rparr>;
               s1 = (if max_score s0 < score then s0\<lparr>max_score := score\<rparr> else s0);
               s2 = (if threshold < score
                     then (emit (Wakeword name score) s1)
                            \<lparr>max_score := 0, model := reset cap (model s1)\<rparr>
                     else s1)
           in server_check cap threshold rest s2))"

text \<open>Lines 95-129: the body of the inner \<^verbatim>\<open>while\<close> loop, entered with at least
  \<open>frame_size\<close> bytes in the buffer.\<close>

definition server_frame ::
  "('m, score_value) scoring \<Rightarrow> real \<Rightarrow> 'm server_state \<Rightarrow>
     string option \<times> 'm server_state" where
  "server_frame cap threshold s =
     (let frame = take frame_size (audio_buffer s);
          s1 = s\<lparr>extracted := extracted s @ [frame],
                 audio_buffer := drop frame_size (audio_buffer s),
                 frames_processed := frames_processed s + 1\<rparr>
      in case decode frame of
           Inl e \<Rightarrow> (Some e, s1)
         | Inr audio \<Rightarrow>
             (case predict cap (model s1) audio of
                (Inl e, m) \<Rightarrow> (Some e, s1\<lparr>model := m\<rparr>)
              | (Inr prediction, m) \<Rightarrow>
                  (case server_check cap threshold prediction (s1\<lparr>model := m\<rparr>) of
                     (Some e, s2) \<Rightarrow> (Some e, s2)
                   | (None, s2) \<Rightarrow>
                       (None,
                        if frames_processed s2 mod 50 = 0
                        then (emit (Debug (frames_processed s2) (py_round3 (max_score s2))) s2)
                               \<lparr>max_score := 0\<rparr>
                        else s2))))"

text \<open>Lines 94-129: the inner loop. It stops when the buffer is shorter than a frame, or
  when a frame raises; the exception then leaves the loop.\<close>

function server_frames ::
  "('m, score_value) scoring \<Rightarrow> real \<Rightarrow> 'm server_state \<Rightarrow>
     string option \<times> 'm server_state" where
  "server_frames cap threshold s =
     (if frame_size \<le> length (audio_buffer s)
      then (case server_frame cap threshold s of
              (Some e, s') \<Rightarrow> (Some e, s')
            | (None, s') \<Rightarrow> server_frames cap threshold s')
      else (None, s))"
  by pat_completeness auto
termination
proof (relation "measure (\<lambda>(cap, threshold, s). length (audio_buffer s))")
  show "wf (measure (\<lambda>(cap :: ('m, score_value) scoring, threshold :: real,
                         s :: 'm server_state). length (audio_buffer s)))"
    by simp
next
  fix cap :: "('m, score_value) scoring" and threshold :: real
    and s s' :: "'m server_state" and r :: "string option"
  assume big: "frame_size \<le> length (audio_buffer s)"
    and step: "(r, s') = server_frame cap threshold s"
  have check: "audio_buffer (snd (server_check cap threshold ps t)) = audio_buffer t"
    for ps and t :: "'m server_state"
    by (induction ps arbitrary: t)
       (auto simp: emit_def Let_def split: sum.splits)
  have "audio_buffer s' = drop frame_size (audio_buffer s)"
    using step check
    by (auto simp: server_frame_def Let_def emit_def
             split: sum.splits prod.splits option.splits if_splits
             dest!: arg_cong [where f = snd])
  with big show "((cap, threshold, s'), (cap, threshold, s))
      \<in> measure (\<lambda>(cap, threshold, s). length (audio_buffer s))"
    by (simp add: frame_size_def CHUNK_SIZE_def)
qed

declare server_frames.simps [simp del]

text \<open>Lines 81-133: the outer loop over the reads of standard input. The input is the
  list of the byte strings the successive \<^verbatim>\<open>read\<close> calls return; a read past its end, and
  an empty byte string, are the end of the stream. A frame that raises is reported and
  the loop goes back to \<^verbatim>\<open>read\<close>.\<close>

fun server_loop ::
  "('m, score_value) scoring \<Rightarrow> real \<Rightarrow> bytes list \<Rightarrow> 'm server_state \<Rightarrow>
     'm server_state" where
  "server_loop cap threshold [] s = s"
| "server_loop cap threshold (chunk # reads) s =
     (if chunk = [] then s
      else (case server_frames cap threshold (s\<lparr>audio_buffer := audio_buffer s @ chunk\<rparr>) of
              (Some e, s') \<Rightarrow> server_loop cap threshold reads (emit (Error_event e) s')
            | (None, s') \<Rightarrow> server_loop cap threshold reads s'))"

text \<open>The start of the module and of \<^verbatim>\<open>main\<close>. \<open>numpy\<close> tells whether \<^verbatim>\<open>import numpy\<close>
  succeeded and \<open>installed\<close> whether \<^verbatim>\<open>import openwakeword\<close> did; \<open>load_model\<close> is the outcome
  of constructing the model (for the server, of \<^verbatim>\<open>download_models()\<close> and \<^verbatim>\<open>Model(...)\<close>):
  the message of the exception, or the model. \<open>py_float\<close> is Python's \<^verbatim>\<open>float\<close> on a text:
  \<open>None\<close> when it raises \<^verbatim>\<open>ValueError\<close>. (\<^verbatim>\<open>float\<close> also accepts the texts of the infinities
  and of NaN, which are no real numbers; thresholds are taken to be real numbers.) The
  result of a run is the list of records printed on standard output and the exit status
  of the process.

  The import of numpy (line 20 of the server, line 16 of the detector) and the server's
  \<^verbatim>\<open>float(sys.argv[2])\<close> (line 46) are inside no \<^verbatim>\<open>try\<close>: when they raise, Python prints the
  traceback on standard error and exits with status 1, with nothing on standard output.
  An import is taken to succeed or to raise \<^verbatim>\<open>ImportError\<close>.\<close>

record 'm host =
  numpy :: bool
  installed :: bool
  load_model :: "string + 'm"




definition server_init :: "string \<Rightarrow> real \<Rightarrow> 'm \<Rightarrow> 'm server_state" where
  "server_init model_name threshold m =
     \<lparr>stdout = [Server_ready model_name threshold CHUNK_SIZE], extracted = [],
      audio_buffer = [], frames_processed = 0, max_score = 0, model = m, observed = []\<rparr>"


section \<open>The detector variant\<close>

record args =
  args_model :: string
  args_threshold :: real
  args_vad_threshold :: real
  args_debug :: bool

text \<open>Lines 133-145 of the detector: the loop over \<^verbatim>\<open>prediction.items()\<close>. The scores
  are numbers; the loop itself raises nothing.\<close>

fun detector_check ::
  "('m, real) scoring \<Rightarrow> args \<Rightarrow> (string \<times> real) list \<Rightarrow> 'm detector_state \<Rightarrow>
     'm detector_state" where
  "detector_check cap a [] s = s"
| "detector_check cap a ((model_name, score) # rest) s =
     (let s1 = (if args_debug a \<and> 1 / 10 < score
                then emit (Debug_score model_name score) s else s);
          s2 = (if args_threshold a \<le> score
                then (emit (Detected model_name score) s1)
                       \<lparr>oww_model := reset cap (oww_model s1)\<rparr>
                else s1)
      in detector_check cap a rest s2)"

text \<open>Lines 123-145: the body of the inner loop.\<close>

definition detector_frame ::
  "('m, real) scoring \<Rightarrow> args \<Rightarrow> 'm detector_state \<Rightarrow>
     string option \<times> 'm detector_state" where
  "detector_frame cap a s =
     (let chunk = take bytes_per_chunk (buffer s);
          s1 = s\<lparr>extracted := extracted s @ [chunk],
                 buffer := drop bytes_per_chunk (buffer s)\<rparr>
      in case decode chunk of
           Inl e \<Rightarrow> (Some e, s1)
         | Inr audio \<Rightarrow>
             (case predict cap (oww_model s1) audio of
                (Inl e, m) \<Rightarrow> (Some e, s1\<lparr>oww_model := m\<rparr>)
              | (Inr prediction, m) \<Rightarrow>
                  (None, detector_check cap a prediction (s1\<lparr>oww_model := m\<rparr>))))"

text \<open>Lines 122-145: the inner loop.\<close>

function detector_frames ::
  "('m, real) scoring \<Rightarrow> args \<Rightarrow> 'm detector_state \<Rightarrow>
     string option \<times> 'm detector_state" where
  "detector_frames cap a s =
     (if bytes_per_chunk \<le> length (buffer s)
      then (case detector_frame cap a s of
              (Some e, s') \<Rightarrow> (Some e, s')
            | (None, s') \<Rightarrow> detector_frames cap a s')
      else (None, s))"
  by pat_completeness auto
termination
proof (relation "measure (\<lambda>(cap, a, s). length (buffer s))")
  show "wf (measure (\<lambda>(cap :: ('m, real) scoring, a :: args,
                         s :: 'm detector_state). length (buffer s)))"
    by simp
next
  fix cap :: "('m, real) scoring" and a :: args
    and s s' :: "'m detector_state" and r :: "string option"
  assume big: "bytes_per_chunk \<le> length (buffer s)"
    and step: "(r, s') = detector_frame cap a s"
  have check: "buffer (detector_check cap a ps t) = buffer t"
    for ps and t :: "'m detector_state"
    by (induction ps arbitrary: t) (auto simp: emit_def Let_def)
  have "buffer s' = drop bytes_per_chunk (buffer s)"
    using step check
    by (auto simp: detector_frame_def Let_def
             split: sum.splits prod.splits)
  with big show "((cap, a, s'), (cap, a, s)) \<in> measure (\<lambda>(cap, a, s). length (buffer s))"
    by (simp add: bytes_per_chunk_def CHUNK_SIZE_def)
qed

declare detector_frames.simps [simp del]

text \<open>Lines 112-152: the outer loop. The handler prints the exception only with
  \<^verbatim>\<open>--debug\<close>. (KeyboardInterrupt, an asynchronous signal, is not modelled.)\<close>

fun detector_loop ::
  "('m, real) scoring \<Rightarrow> args \<Rightarrow> bytes list \<Rightarrow> 'm detector_state \<Rightarrow>
     'm detector_state" where
  "detector_loop cap a [] s = s"
| "detector_loop cap a (data # reads) s =
     (if data = [] then s
      else (case detector_frames cap a (s\<lparr>buffer := buffer s @ data\<rparr>) of
              (Some e, s') \<Rightarrow>
                detector_loop cap a reads (if args_debug a then emit (Error_record e) s' else s')
            | (None, s') \<Rightarrow> detector_loop cap a reads s'))"

text \<open>Lines 24-35: \<^verbatim>\<open>parser.parse_args()\<close> is \<^verbatim>\<open>argparse\<close>'s, and its outcome is given: the
  namespace; or the exit with status 2 after a usage message on standard error, for an
  option it does not know, a missing value, or a value of \<^verbatim>\<open>--threshold\<close> or
  \<^verbatim>\<open>--vad-threshold\<close> that \<^verbatim>\<open>float\<close> rejects (\<^verbatim>\<open>type=float\<close>); or the exit with status 0 after
  the help text on standard output (\<^verbatim>\<open>-h\<close>).\<close>

datatype 'a parse_result = Namespace 'a | Usage_error | Help

text \<open>Lines 16-106 and 154. \<open>custom_model_path\<close> is the path of the downloaded model file
  and \<open>custom_exists\<close> whether it exists; \<open>onnx_available\<close> tells whether
  \<^verbatim>\<open>import onnxruntime\<close> succeeded and \<open>enable_speex\<close> whether the Speex noise suppression
  was found.\<close>

record 'm detector_host = "'m host" +
  custom_model_path :: string
  custom_exists :: bool
  onnx_available :: bool
  enable_speex :: bool

definition detector_init :: "event list \<Rightarrow> 'm \<Rightarrow> 'm detector_state" where
  "detector_init printed m =
     \<lparr>stdout = printed, extracted = [], buffer = [], oww_model = m\<rparr>"

definition detector_main ::
  "('m, real) scoring \<Rightarrow> 'm detector_host \<Rightarrow> args parse_result \<Rightarrow> bytes list \<Rightarrow>
     event list \<times> nat" where
  "detector_main cap h cmd reads =
     (if \<not> numpy h then ([], 1)
      else case cmd of
        Usage_error \<Rightarrow> ([], 2)
      | Help \<Rightarrow> ([Help_text], 0)
      | Namespace a \<Rightarrow>
          (if \<not> installed h then ([Install_error], 1)
           else
             let inference_fw = (if onnx_available h then ''onnx'' else ''tflite'');
                 loading =
                   (if args_debug a
                    then [Debug_loading (custom_exists h)
                            (if custom_exists h then custom_model_path h else args_model a)
                            inference_fw (args_vad_threshold a)]
                    else [])
             in case load_model h of
                  Inl e \<Rightarrow> (loading @ [Error_record (''Failed to load model: '' @ e)], 1)
                | Inr m \<Rightarrow>
                    (let features =
                           (if 0 < args_vad_threshold a then [Vad (args_vad_threshold a)] else [])
                           @ (if enable_speex h then [Speex_ns] else []);
                         ready = Detector_ready (args_model a) (args_threshold a) features;
                         s = detector_loop cap a reads (detector_init (loading @ [ready]) m)
                     in (stdout s @ [Stopped], 0))))"

section \<open>Notions used by the theorems\<close>

text \<open>The bytes the loops take in: the reads up to the first empty one, concatenated.\<close>

definition fed :: "bytes list \<Rightarrow> bytes" where
  "fed reads = concat (takeWhile (\<lambda>chunk. chunk \<noteq> []) reads)"




text \<open>The detection records of the two variants, and the number the server reads from a
  score that does not raise.\<close>

fun is_detection :: "event \<Rightarrow> bool" where
  "is_detection (Wakeword keyword score) = True"
| "is_detection (Detected model_name score) = True"
| "is_detection e = False"

fun the_score :: "score_value \<Rightarrow> real" where
  "the_score (Scalar x) = x"
| "the_score (Series xs) = last xs"




definition detector_host :: "nat detector_host" where
  "detector_host =
     \<lparr>numpy = True, installed = True, load_model = Inr 0,
      custom_model_path = ''/root/.claude-voice/models/openwakeword/hey_jarvis.onnx'',
      custom_exists = False, onnx_available = True, enable_speex = False\<rparr>"






text \<open>Capabilities for the example runs. The state counts the calls of \<open>predict\<close>.
  \<open>quiet v\<close> scores every frame \<open>v\<close> for the one detector; \<open>fails_on k v\<close> does the same but
  raises on the \<open>k\<close>-th call. A reset sets the count back to 0.\<close>

definition quiet :: "'v \<Rightarrow> (nat, 'v) scoring" where
  "quiet v =
     \<lparr>predict = (\<lambda>calls audio. (Inr [(''hey_jarvis'', v)], Suc calls)),
      reset = (\<lambda>calls. 0)\<rparr>"

definition fails_on :: "nat \<Rightarrow> 'v \<Rightarrow> (nat, 'v) scoring" where
  "fails_on k v =
     \<lparr>predict = (\<lambda>calls audio.
        (if Suc calls = k then Inl ''model error'' else Inr [(''hey_jarvis'', v)], Suc calls)),
      reset = (\<lambda>calls. 0)\<rparr>"




text \<open>The detector's command line with its defaults.\<close>

definition default_args :: args where
  "default_args =
     \<lparr>args_model = ''hey_jarvis'', args_threshold = 13 / 20, args_vad_threshold = 3 / 10,
      args_debug = False\<rparr>"




section \<open>The sample decoder: properties\<close>

lemma uint_word_cat_bytes:
  "uint (word_cat (hi :: byte) (lo :: byte) :: 16 word) = uint lo + 256 * uint hi"
proof -
  have "uint (word_cat hi lo :: 16 word) = concat_bit 8 (uint lo) (uint hi) mod 2 ^ 16"
    by (simp add: word_cat_eq' uint_word_of_int take_bit_eq_mod)
  also have "concat_bit 8 (uint lo) (uint hi) = uint lo + 256 * uint hi"
    by (simp add: concat_bit_eq take_bit_eq_mod push_bit_eq_mult uint_bounded [where 'a = 8, simplified] uint_nonnegative)
  also have "(uint lo + 256 * uint hi) mod 2 ^ 16 = uint lo + 256 * uint hi"
    using uint_bounded [of lo] uint_bounded [of hi] uint_nonnegative [of lo] uint_nonnegative [of hi]
    by simp
  finally show ?thesis .
qed

lemma sint_16: "sint (w :: 16 word) = (if uint w < 32768 then uint w else uint w - 65536)"
  using uint_bounded [of w] uint_nonnegative [of w]
  by (simp add: sint_uint signed_take_bit_eq_take_bit_shift take_bit_eq_mod)
     (smt (verit) mod_pos_pos_trivial mod_add_self2 minus_mod_self2)

lemma sint_word_cat: "sint (word_cat hi lo :: 16 word) = int16_value lo (hi :: byte)"
  by (simp add: sint_16 uint_word_cat_bytes int16_value_def Let_def)

lemma requantize_normalize: "requantize (normalize_sample w) = w"
proof -
  have "normalize_sample w * 32768 = of_int (sint w)"
    by (simp add: normalize_sample_def del: of_int_sint)
  then have "round (normalize_sample w * 32768) = sint w"
    by (simp only: round_of_int)
  then show ?thesis
    by (simp add: requantize_def)
qed

lemma normalize_bounds: "- 1 \<le> normalize_sample w \<and> normalize_sample w < 1"
proof -
  have "- 32768 \<le> sint w" "sint w < 32768"
    using sint_ge [of w] sint_lt [of w] by simp_all
  then have "- 32768 \<le> real_of_int (sint w)" "real_of_int (sint w) < 32768"
    by linarith+
  then show ?thesis
    by (simp add: normalize_sample_def del: of_int_sint)
qed


lemma length_int16_le: "length (int16_le b) = length b div 2"
  by (induction b rule: int16_le.induct) auto

lemma nth_int16_le:
  "i < length b div 2 \<Longrightarrow> int16_le b ! i = word_cat (b ! (2 * i + 1)) (b ! (2 * i))"
proof (induction b arbitrary: i rule: int16_le.induct)
  case (1 lo hi rest)
  then show ?case by (cases i) auto
qed auto

lemma decode_even:
  "even (length frame) \<Longrightarrow> decode frame = Inr (map normalize_sample (int16_le frame))"
  by (simp add: decode_def frombuffer_int16_def)

text \<open>
  C8. The decoder has no state and no effect (it is a HOL function of the frame alone). On a
  frame of \<open>frame_size = 2560\<close> bytes it does not raise and returns \<open>CHUNK_SIZE = 1280\<close>
  samples; sample \<open>i\<close> is the little-endian signed 16-bit value of bytes \<open>2 i\<close> and \<open>2 i + 1\<close>
  divided by 32768, and lies between -1 and 1.
\<close>

theorem decode_frame:
  assumes "length frame = frame_size"
  shows "\<exists>samples. decode frame = Inr samples \<and> length samples = CHUNK_SIZE \<and>
           (\<forall>i<CHUNK_SIZE.
              samples ! i
                = real_of_int (int16_value (frame ! (2 * i)) (frame ! (2 * i + 1))) / 32768 \<and>
              - 1 \<le> samples ! i \<and> samples ! i \<le> 1)"
proof -
  let ?samples = "map normalize_sample (int16_le frame)"
  have len: "length frame = 2 * CHUNK_SIZE"
    using assms by (simp add: frame_size_def)
  then have dec: "decode frame = Inr ?samples"
    by (simp add: decode_even)
  have n: "length ?samples = CHUNK_SIZE"
    using len by (simp add: length_int16_le)
  have "?samples ! i
          = real_of_int (int16_value (frame ! (2 * i)) (frame ! (2 * i + 1))) / 32768 \<and>
        - 1 \<le> ?samples ! i \<and> ?samples ! i \<le> 1" if "i < CHUNK_SIZE" for i
  proof -
    have i: "i < length frame div 2"
      using that len by simp
    then have "?samples ! i = normalize_sample (word_cat (frame ! (2 * i + 1)) (frame ! (2 * i)))"
      by (simp add: length_int16_le nth_int16_le)
    also have "\<dots> = real_of_int (int16_value (frame ! (2 * i)) (frame ! (2 * i + 1))) / 32768"
      unfolding normalize_sample_def sint_word_cat ..
    finally have eq: "?samples ! i
        = real_of_int (int16_value (frame ! (2 * i)) (frame ! (2 * i + 1))) / 32768" .
    have "?samples ! i = normalize_sample (int16_le frame ! i)"
      using i by (simp add: length_int16_le)
    then have "- 1 \<le> ?samples ! i \<and> ?samples ! i \<le> 1"
      using normalize_bounds [of "int16_le frame ! i"] by simp
    with eq show ?thesis
      by blast
  qed
  with dec n show ?thesis
    by blast
qed

text \<open>The frame of 1280 samples \<^verbatim>\<open>00 80\<close>, that is -32768 each, decodes to 1280 times -1.\<close>

lemma nth_concat_replicate_pair:
  "i < n \<Longrightarrow> concat (replicate n [a, b]) ! (2 * i) = a \<and>
     concat (replicate n [a, b]) ! (2 * i + 1) = b"
proof (induction n arbitrary: i)
  case 0
  then show ?case by simp
next
  case (Suc n)
  then show ?case by (cases i) simp_all
qed

theorem decode_frame_witness:
  "length (concat (replicate 1280 [0, 128 :: byte])) = frame_size \<and>
   decode (concat (replicate 1280 [0, 128])) = Inr (replicate 1280 (- 1))"
proof -
  let ?frame = "concat (replicate 1280 [0, 128 :: byte])"
  have len: "length ?frame = frame_size"
    by (simp add: length_concat frame_size_def CHUNK_SIZE_def sum_list_replicate)
  from decode_frame [OF len] obtain samples where
    dec: "decode ?frame = Inr samples" and n: "length samples = CHUNK_SIZE" and
    each: "\<forall>i<CHUNK_SIZE. samples ! i
             = real_of_int (int16_value (?frame ! (2 * i)) (?frame ! (2 * i + 1))) / 32768"
    by blast
  have "samples = replicate 1280 (- 1)"
  proof (rule nth_equalityI)
    show "length samples = length (replicate 1280 (- 1 :: real))"
      using n by (simp add: CHUNK_SIZE_def)
  next
    fix i assume "i < length samples"
    then have i: "i < 1280"
      using n by (simp add: CHUNK_SIZE_def)
    then have "samples ! i
                 = real_of_int (int16_value (?frame ! (2 * i)) (?frame ! (2 * i + 1))) / 32768"
      using each by (simp add: CHUNK_SIZE_def)
    also have "\<dots> = real_of_int (int16_value 0 128) / 32768"
      using nth_concat_replicate_pair [OF i, of "0 :: byte" 128] by simp
    also have "\<dots> = - 1"
      by (simp add: int16_value_def)
    finally show "samples ! i = replicate 1280 (- 1) ! i"
      using i by simp
  qed
  with dec len show ?thesis
    by simp
qed

text \<open>
  C9. For every signed 16-bit sample \<open>x\<close>, decoding (dividing by 32768) and re-quantizing
  (multiplying by 32768 and rounding to a 16-bit integer) gives a value within one unit of
  \<open>x\<close>. (With this scale the round trip is exact, see \<open>requantize_normalize\<close>.)
\<close>

theorem requantize_roundtrip:
  "\<bar>sint (requantize (normalize_sample x)) - sint x\<bar> \<le> 1"
  by (simp add: requantize_normalize)

section \<open>Frame assembly\<close>

lemma fed_simps [simp]:
  "fed [] = []"
  "chunk \<noteq> [] \<Longrightarrow> fed (chunk # reads) = chunk @ fed reads"
  "fed ([] # reads) = []"
  by (simp_all add: fed_def)

subsection \<open>Lists cut into slices\<close>




subsection \<open>What the server loops do to the state\<close>

lemma server_check_keeps:
  "server_check cap thr ps s = (r, s') \<Longrightarrow>
     audio_buffer s' = audio_buffer s \<and> extracted s' = extracted s \<and>
     frames_processed s' = frames_processed s \<and> (\<exists>evs. stdout s' = stdout s @ evs)"
proof (induction ps arbitrary: s)
  case Nil
  then show ?case by simp
next
  case (Cons p ps)
  obtain name scores where p: "p = (name, scores)"
    by (cases p)
  show ?case
  proof (cases "latest_score scores")
    case (Inl e)
    with Cons.prems p show ?thesis by simp
  next
    case (Inr score)
    let ?s0 = "s\<lparr>observed := observed s @ [(frames_processed s, score)]\<rparr>"
    let ?s1 = "if max_score ?s0 < score then ?s0\<lparr>max_score := score\<rparr> else ?s0"
    let ?s2 = "if thr < score
               then (emit (Wakeword name score) ?s1)
                      \<lparr>max_score := 0, model := reset cap (model ?s1)\<rparr>
               else ?s1"
    from Cons.prems p Inr have "server_check cap thr ps ?s2 = (r, s')"
      by (simp add: Let_def)
    from Cons.IH [OF this] show ?thesis
      by (auto simp: emit_def split: if_splits)
  qed
qed

lemma server_frame_effect:
  assumes "server_frame cap thr s = (r, s')"
  shows "audio_buffer s' = drop frame_size (audio_buffer s)"
    and "extracted s' = extracted s @ [take frame_size (audio_buffer s)]"
    and "frames_processed s' = Suc (frames_processed s)"
    and "\<exists>evs. stdout s' = stdout s @ evs"
  using assms
  by (auto simp: server_frame_def Let_def emit_def
           split: sum.splits prod.splits option.splits if_splits
           dest!: server_check_keeps)

lemma server_frames_effect:
  "server_frames cap thr s = (r, s') \<Longrightarrow>
     concat (extracted s') @ audio_buffer s' = concat (extracted s) @ audio_buffer s \<and>
     (\<exists>fs. extracted s' = extracted s @ fs \<and> (\<forall>f\<in>set fs. length f = frame_size)) \<and>
     frames_processed s' + length (extracted s) = frames_processed s + length (extracted s') \<and>
     (\<exists>evs. stdout s' = stdout s @ evs) \<and>
     (r = None \<longrightarrow> length (audio_buffer s') < frame_size)"
proof (induction cap thr s arbitrary: r s' rule: server_frames.induct)
  case (1 cap thr s)
  show ?case
  proof (cases "frame_size \<le> length (audio_buffer s)")
    case False
    with "1.prems" show ?thesis
      by (simp add: server_frames.simps)
  next
    case True
    obtain r1 s1 where step: "server_frame cap thr s = (r1, s1)"
      by (cases "server_frame cap thr s")
    note eff = server_frame_effect [OF step]
    have one: "concat (extracted s1) @ audio_buffer s1 = concat (extracted s) @ audio_buffer s"
      by (simp add: eff)
    have len: "length (take frame_size (audio_buffer s)) = frame_size"
      using True by simp
    show ?thesis
    proof (cases r1)
      case (Some e)
      with "1.prems" True step have "r = Some e" "s' = s1"
        by (simp_all add: server_frames.simps)
      with one eff len show ?thesis
        by simp
    next
      case None
      with "1.prems" True step have rest: "server_frames cap thr s1 = (r, s')"
        by (simp add: server_frames.simps)
      from "1.IH" [OF True step [symmetric] None rest] one eff len
      show ?thesis
        by auto
    qed
  qed
qed

lemma server_loop_effect:
  "concat (extracted (server_loop cap thr reads s)) @ audio_buffer (server_loop cap thr reads s)
     = concat (extracted s) @ audio_buffer s @ fed reads \<and>
   (\<exists>fs. extracted (server_loop cap thr reads s) = extracted s @ fs \<and>
      (\<forall>f\<in>set fs. length f = frame_size)) \<and>
   frames_processed (server_loop cap thr reads s) + length (extracted s)
     = frames_processed s + length (extracted (server_loop cap thr reads s)) \<and>
   (\<exists>evs. stdout (server_loop cap thr reads s) = stdout s @ evs)"
proof (induction reads arbitrary: s)
  case Nil
  show ?case by simp
next
  case (Cons chunk reads)
  show ?case
  proof (cases "chunk = []")
    case True
    then show ?thesis by simp
  next
    case False
    let ?s0 = "s\<lparr>audio_buffer := audio_buffer s @ chunk\<rparr>"
    obtain r s1 where inner: "server_frames cap thr ?s0 = (r, s1)"
      by (cases "server_frames cap thr ?s0")
    define s2 where "s2 = (case r of Some e \<Rightarrow> emit (Error_event e) s1 | None \<Rightarrow> s1)"
    have loop: "server_loop cap thr (chunk # reads) s = server_loop cap thr reads s2"
      using False inner by (simp add: s2_def split: option.splits)
    have same: "extracted s2 = extracted s1" "audio_buffer s2 = audio_buffer s1"
      "frames_processed s2 = frames_processed s1" "\<exists>evs. stdout s2 = stdout s1 @ evs"
      by (auto simp: s2_def emit_def split: option.splits)
    from server_frames_effect [OF inner] same
    have a: "concat (extracted s2) @ audio_buffer s2 = concat (extracted s) @ audio_buffer s @ chunk"
      and b: "\<exists>fs. extracted s2 = extracted s @ fs \<and> (\<forall>f\<in>set fs. length f = frame_size)"
      and c: "frames_processed s2 + length (extracted s) = frames_processed s + length (extracted s2)"
      and d: "\<exists>evs. stdout s2 = stdout s @ evs"
      by auto
    from Cons.IH [of s2] obtain fs2 evs2 where
      a2: "concat (extracted (server_loop cap thr reads s2))
             @ audio_buffer (server_loop cap thr reads s2)
           = concat (extracted s2) @ audio_buffer s2 @ fed reads"
      and b2: "extracted (server_loop cap thr reads s2) = extracted s2 @ fs2"
        "\<forall>f\<in>set fs2. length f = frame_size"
      and c2: "frames_processed (server_loop cap thr reads s2) + length (extracted s2)
           = frames_processed s2 + length (extracted (server_loop cap thr reads s2))"
      and d2: "stdout (server_loop cap thr reads s2) = stdout s2 @ evs2"
      by blast
    from b obtain fs1 where b1: "extracted s2 = extracted s @ fs1"
      "\<forall>f\<in>set fs1. length f = frame_size"
      by blast
    from d obtain evs1 where d1: "stdout s2 = stdout s @ evs1"
      by blast
    have "concat (extracted (server_loop cap thr reads s2))
             @ audio_buffer (server_loop cap thr reads s2)
           = concat (extracted s) @ audio_buffer s @ fed (chunk # reads)"
      using a2 a False by simp
    moreover have "extracted (server_loop cap thr reads s2) = extracted s @ (fs1 @ fs2)"
      "\<forall>f\<in>set (fs1 @ fs2). length f = frame_size"
      using b1 b2 by auto
    moreover have "frames_processed (server_loop cap thr reads s2) + length (extracted s)
           = frames_processed s + length (extracted (server_loop cap thr reads s2))"
      using c c2 by linarith
    moreover have "stdout (server_loop cap thr reads s2) = stdout s @ (evs1 @ evs2)"
      using d1 d2 by simp
    ultimately show ?thesis
      unfolding loop by blast
  qed
qed






subsection \<open>What the detector loops do to the state\<close>

lemma detector_check_keeps:
  "buffer (detector_check cap a ps s) = buffer s \<and>
   extracted (detector_check cap a ps s) = extracted s \<and>
   (\<exists>evs. stdout (detector_check cap a ps s) = stdout s @ evs)"
proof (induction ps arbitrary: s)
  case Nil
  show ?case by simp
next
  case (Cons p ps)
  obtain model_name score where p: "p = (model_name, score)"
    by (cases p)
  let ?s1 = "if args_debug a \<and> 1 / 10 < score
             then emit (Debug_score model_name score) s else s"
  let ?s2 = "if args_threshold a \<le> score
             then (emit (Detected model_name score) ?s1)
                    \<lparr>oww_model := reset cap (oww_model ?s1)\<rparr>
             else ?s1"
  have "detector_check cap a (p # ps) s = detector_check cap a ps ?s2"
    by (simp add: p Let_def)
  with Cons.IH [of ?s2] show ?case
    by (auto simp: emit_def split: if_splits)
qed

lemma detector_frame_effect:
  assumes "detector_frame cap a s = (r, s')"
  shows "buffer s' = drop bytes_per_chunk (buffer s)"
    and "extracted s' = extracted s @ [take bytes_per_chunk (buffer s)]"
    and "\<exists>evs. stdout s' = stdout s @ evs"
proof -
  have keep: "buffer (detector_check cap a ps t) = buffer t"
    "extracted (detector_check cap a ps t) = extracted t" for ps t
    using detector_check_keeps [of cap a ps t] by simp_all
  show "buffer s' = drop bytes_per_chunk (buffer s)"
    using assms by (auto simp: detector_frame_def Let_def keep split: sum.splits prod.splits)
  show "extracted s' = extracted s @ [take bytes_per_chunk (buffer s)]"
    using assms by (auto simp: detector_frame_def Let_def keep split: sum.splits prod.splits)
  have "\<exists>evs. stdout (detector_check cap a ps t) = stdout s @ evs"
    if "stdout t = stdout s" for ps t
    using detector_check_keeps [of cap a ps t] that by simp
  then show "\<exists>evs. stdout s' = stdout s @ evs"
    using assms by (auto simp: detector_frame_def Let_def split: sum.splits prod.splits)
qed

lemma detector_frames_effect:
  "detector_frames cap a s = (r, s') \<Longrightarrow>
     concat (extracted s') @ buffer s' = concat (extracted s) @ buffer s \<and>
     (\<exists>fs. extracted s' = extracted s @ fs \<and> (\<forall>f\<in>set fs. length f = bytes_per_chunk)) \<and>
     (\<exists>evs. stdout s' = stdout s @ evs) \<and>
     (r = None \<longrightarrow> length (buffer s') < bytes_per_chunk)"
proof (induction cap a s arbitrary: r s' rule: detector_frames.induct)
  case (1 cap a s)
  show ?case
  proof (cases "bytes_per_chunk \<le> length (buffer s)")
    case False
    with "1.prems" show ?thesis
      by (simp add: detector_frames.simps)
  next
    case True
    obtain r1 s1 where step: "detector_frame cap a s = (r1, s1)"
      by (cases "detector_frame cap a s")
    note eff = detector_frame_effect [OF step]
    have one: "concat (extracted s1) @ buffer s1 = concat (extracted s) @ buffer s"
      by (simp add: eff)
    have len: "length (take bytes_per_chunk (buffer s)) = bytes_per_chunk"
      using True by simp
    show ?thesis
    proof (cases r1)
      case (Some e)
      with "1.prems" True step have "r = Some e" "s' = s1"
        by (simp_all add: detector_frames.simps)
      with one eff len show ?thesis
        by simp
    next
      case None
      with "1.prems" True step have rest: "detector_frames cap a s1 = (r, s')"
        by (simp add: detector_frames.simps)
      from "1.IH" [OF True step [symmetric] None rest] one eff len
      show ?thesis
        by auto
    qed
  qed
qed

lemma detector_loop_effect:
  "concat (extracted (detector_loop cap a reads s)) @ buffer (detector_loop cap a reads s)
     = concat (extracted s) @ buffer s @ fed reads \<and>
   (\<exists>fs. extracted (detector_loop cap a reads s) = extracted s @ fs \<and>
      (\<forall>f\<in>set fs. length f = bytes_per_chunk)) \<and>
   (\<exists>evs. stdout (detector_loop cap a reads s) = stdout s @ evs)"
proof (induction reads arbitrary: s)
  case Nil
  show ?case by simp
next
  case (Cons data reads)
  show ?case
  proof (cases "data = []")
    case True
    then show ?thesis by simp
  next
    case False
    let ?s0 = "s\<lparr>buffer := buffer s @ data\<rparr>"
    obtain r s1 where inner: "detector_frames cap a ?s0 = (r, s1)"
      by (cases "detector_frames cap a ?s0")
    define s2 where "s2 = (case r of
        Some e \<Rightarrow> if args_debug a then emit (Error_record e) s1 else s1
      | None \<Rightarrow> s1)"
    have loop: "detector_loop cap a (data # reads) s = detector_loop cap a reads s2"
      using False inner by (simp add: s2_def split: option.splits)
    have same: "extracted s2 = extracted s1" "buffer s2 = buffer s1"
      "\<exists>evs. stdout s2 = stdout s1 @ evs"
      by (auto simp: s2_def emit_def split: option.splits)
    from detector_frames_effect [OF inner] same
    have a: "concat (extracted s2) @ buffer s2 = concat (extracted s) @ buffer s @ data"
      and b: "\<exists>fs. extracted s2 = extracted s @ fs \<and> (\<forall>f\<in>set fs. length f = bytes_per_chunk)"
      and d: "\<exists>evs. stdout s2 = stdout s @ evs"
      by auto
    from Cons.IH [of s2] obtain fs2 evs2 where
      a2: "concat (extracted (detector_loop cap a reads s2))
             @ buffer (detector_loop cap a reads s2)
           = concat (extracted s2) @ buffer s2 @ fed reads"
      and b2: "extracted (detector_loop cap a reads s2) = extracted s2 @ fs2"
        "\<forall>f\<in>set fs2. length f = bytes_per_chunk"
      and d2: "stdout (detector_loop cap a reads s2) = stdout s2 @ evs2"
      by blast
    from b obtain fs1 where b1: "extracted s2 = extracted s @ fs1"
      "\<forall>f\<in>set fs1. length f = bytes_per_chunk"
      by blast
    from d obtain evs1 where d1: "stdout s2 = stdout s @ evs1"
      by blast
    have "concat (extracted (detector_loop cap a reads s2))
             @ buffer (detector_loop cap a reads s2)
           = concat (extracted s) @ buffer s @ fed (data # reads)"
      using a2 a False by simp
    moreover have "extracted (detector_loop cap a reads s2) = extracted s @ (fs1 @ fs2)"
      "\<forall>f\<in>set (fs1 @ fs2). length f = bytes_per_chunk"
      using b1 b2 by auto
    moreover have "stdout (detector_loop cap a reads s2) = stdout s @ (evs1 @ evs2)"
      using d1 d2 by simp
    ultimately show ?thesis
      unfolding loop by blast
  qed
qed





















section \<open>Re-chunking\<close>











section \<open>Detection\<close>

lemma latest_the_score: "v \<noteq> Series [] \<Longrightarrow> latest_score v = Inr (the_score v)"
  by (cases v) auto

lemma detector_check_detections:
  "filter is_detection (stdout (detector_check cap a pairs d))
     = filter is_detection (stdout d)
       @ [Detected n x. (n, x) \<leftarrow> pairs, args_threshold a \<le> x]"
proof (induction pairs arbitrary: d)
  case Nil
  show ?case by simp
next
  case (Cons p pairs)
  obtain n x where p: "p = (n, x)"
    by (cases p)
  show ?case
    by (simp add: p Let_def Cons.IH emit_def)
qed

lemma server_check_detections:
  "Series [] \<notin> snd ` set items \<Longrightarrow>
     \<exists>s'. server_check cap threshold items s = (None, s') \<and>
       filter is_detection (stdout s')
         = filter is_detection (stdout s)
           @ [Wakeword n (the_score v). (n, v) \<leftarrow> items, threshold < the_score v]"
proof (induction items arbitrary: s)
  case Nil
  show ?case by simp
next
  case (Cons p items)
  obtain n v where p: "p = (n, v)"
    by (cases p)
  with Cons.prems have v: "latest_score v = Inr (the_score v)"
    by (intro latest_the_score) auto
  let ?s0 = "s\<lparr>observed := observed s @ [(frames_processed s, the_score v)]\<rparr>"
  let ?s1 = "if max_score ?s0 < the_score v then ?s0\<lparr>max_score := the_score v\<rparr> else ?s0"
  let ?s2 = "if threshold < the_score v
             then (emit (Wakeword n (the_score v)) ?s1)
                    \<lparr>max_score := 0, model := reset cap (model ?s1)\<rparr>
             else ?s1"
  have step: "server_check cap threshold (p # items) s = server_check cap threshold items ?s2"
    by (simp add: p v Let_def)
  from Cons.prems have "Series [] \<notin> snd ` set items"
    by auto
  from Cons.IH [OF this, of ?s2] obtain s' where
    "server_check cap threshold items ?s2 = (None, s')"
    "filter is_detection (stdout s')
         = filter is_detection (stdout ?s2)
           @ [Wakeword n (the_score v). (n, v) \<leftarrow> items, threshold < the_score v]"
    by blast
  then show ?case
    unfolding step by (auto simp: p emit_def)
qed

text \<open>
  C2. Over one prediction, the detector prints a detection record for exactly the pairs
  with \<open>score \<ge> threshold\<close>, the server for exactly the pairs with \<open>score > threshold\<close>, each
  in the order of the items. So for a score equal to the threshold the detector prints
  the record and the server prints nothing.
\<close>

theorem threshold_comparison:
  fixes cap :: "('m, score_value) scoring" and dcap :: "('n, real) scoring"
  assumes "Series [] \<notin> snd ` set items"
  shows
    "filter is_detection (stdout (detector_check dcap a pairs d))
       = filter is_detection (stdout d)
         @ [Detected n x. (n, x) \<leftarrow> pairs, args_threshold a \<le> x] \<and>
     (\<exists>s'. server_check cap threshold items s = (None, s') \<and>
        filter is_detection (stdout s')
          = filter is_detection (stdout s)
            @ [Wakeword n (the_score v). (n, v) \<leftarrow> items, threshold < the_score v]) \<and>
     filter is_detection (stdout (detector_check dcap a [(name, args_threshold a)] d))
       = filter is_detection (stdout d) @ [Detected name (args_threshold a)] \<and>
     stdout (snd (server_check cap threshold [(name, Scalar threshold)] s)) = stdout s"
  using detector_check_detections [of dcap a pairs d]
    server_check_detections [OF assms, of cap threshold s]
  by (simp add: Let_def emit_def)

theorem threshold_comparison_witness:
  "Series [] \<notin> snd ` set [(''hey_jarvis'', Scalar (1 / 2)), (''alexa'', Series [0, 3 / 4])] \<and>
   filter is_detection
     (stdout (detector_check (quiet 0) (default_args\<lparr>args_threshold := 1 / 2\<rparr>)
                [(''hey_jarvis'', 1 / 2), (''alexa'', 3 / 4)] (detector_init [] 0)))
     = [Detected ''hey_jarvis'' (1 / 2), Detected ''alexa'' (3 / 4)] \<and>
   (\<exists>s'. server_check (quiet (Scalar 0)) (1 / 2)
            [(''hey_jarvis'', Scalar (1 / 2)), (''alexa'', Series [0, 3 / 4])]
            (server_init ''hey_jarvis'' (1 / 2) 0) = (None, s') \<and>
         filter is_detection (stdout s') = [Wakeword ''alexa'' (3 / 4)])"
proof -
  have ok: "Series [] \<notin> snd ` set [(''hey_jarvis'', Scalar (1 / 2)), (''alexa'', Series [0, 3 / 4])]"
    by simp
  from threshold_comparison [OF ok, of "quiet 0" "default_args\<lparr>args_threshold := 1 / 2\<rparr>"
        "[(''hey_jarvis'', 1 / 2), (''alexa'', 3 / 4)]" "detector_init [] 0"
        "quiet (Scalar 0)" "1 / 2" "server_init ''hey_jarvis'' (1 / 2) 0" "''hey_jarvis''"]
  have "filter is_detection
     (stdout (detector_check (quiet 0) (default_args\<lparr>args_threshold := 1 / 2\<rparr>)
                [(''hey_jarvis'', 1 / 2), (''alexa'', 3 / 4)] (detector_init [] 0)))
     = [Detected ''hey_jarvis'' (1 / 2), Detected ''alexa'' (3 / 4)]"
    and "\<exists>s'. server_check (quiet (Scalar 0)) (1 / 2)
            [(''hey_jarvis'', Scalar (1 / 2)), (''alexa'', Series [0, 3 / 4])]
            (server_init ''hey_jarvis'' (1 / 2) 0) = (None, s') \<and>
         filter is_detection (stdout s') = [Wakeword ''alexa'' (3 / 4)]"
    unfolding detector_init_def server_init_def default_args_def by simp_all
  with ok show ?thesis
    by blast
qed

text \<open>
  C5 (amended). When a pair meets the variant's comparison, the loop prints the detection
  record with that detector name and score and resets the model; the server also sets
  \<open>max_score\<close> to 0; then the loop goes on with the remaining items. The detector keeps no
  rolling maximum.
\<close>

theorem detection_reset:
  fixes cap :: "('m, score_value) scoring" and dcap :: "('n, real) scoring"
  shows
    "(latest_score v = Inr x \<and> threshold < x \<longrightarrow>
        server_check cap threshold ((name, v) # rest) s
          = server_check cap threshold rest
              (s\<lparr>observed := observed s @ [(frames_processed s, x)],
                 stdout := stdout s @ [Wakeword name x], max_score := 0,
                 model := reset cap (model s)\<rparr>)) \<and>
     (args_threshold a \<le> y \<longrightarrow>
        detector_check dcap a ((name, y) # pairs) d
          = detector_check dcap a pairs
              (d\<lparr>stdout := stdout d
                    @ (if args_debug a \<and> 1 / 10 < y then [Debug_score name y] else [])
                    @ [Detected name y],
                 oww_model := reset dcap (oww_model d)\<rparr>))"
  by (simp add: Let_def emit_def)

theorem detection_reset_witness:
  "latest_score (Scalar (9 / 10)) = Inr (9 / 10) \<and> (1 / 2 :: real) < 9 / 10 \<and>
   server_check (quiet (Scalar 0)) (1 / 2) [(''hey_jarvis'', Scalar (9 / 10))]
       (server_init ''hey_jarvis'' (1 / 2) 7)
     = (None, \<lparr>stdout = [Server_ready ''hey_jarvis'' (1 / 2) 1280,
                          Wakeword ''hey_jarvis'' (9 / 10)],
               extracted = [], audio_buffer = [], frames_processed = 0, max_score = 0,
               model = 0,
       observed = [(0, 9 / 10)]\<rparr>) \<and>
   args_threshold default_args \<le> 9 / 10 \<and>
   detector_check (quiet 0) default_args [(''hey_jarvis'', 9 / 10)] (detector_init [] 7)
     = \<lparr>stdout = [Detected ''hey_jarvis'' (9 / 10)], extracted = [], buffer = [],
        oww_model = 0\<rparr>"
proof -
  have a: "latest_score (Scalar (9 / 10)) = Inr (9 / 10) \<and> (1 / 2 :: real) < 9 / 10"
    by simp
  have b: "args_threshold default_args \<le> 9 / 10"
    by (simp add: default_args_def)
  from detection_reset [of "Scalar (9 / 10)" "9 / 10" "1 / 2" "quiet (Scalar 0)"
      "''hey_jarvis''" "[]" "server_init ''hey_jarvis'' (1 / 2) 7" default_args "9 / 10"
      "quiet 0" "[]" "detector_init [] 7"] a b
  show ?thesis
    by (simp add: server_init_def detector_init_def quiet_def default_args_def CHUNK_SIZE_def)
qed

text \<open>
  The detector's whole state after a detection: the record is printed and the model is
  reset (its count is back to 0); there is no rolling maximum to clear.
\<close>

theorem detection_reset_counterexample:
  "detector_check (quiet 0) default_args [(''hey_jarvis'', 9 / 10)] (detector_init [] 7)
     = \<lparr>stdout = [Detected ''hey_jarvis'' (9 / 10)], extracted = [], buffer = [],
        oww_model = 0\<rparr>"
  by (simp add: detector_init_def quiet_def default_args_def emit_def Let_def)

section \<open>The records of a run\<close>











section \<open>End of the stream\<close>






section \<open>A frame that raises\<close>

lemma server_frames_raise:
  "server_frames cap thr s = (Some e, s') \<Longrightarrow>
     \<exists>t. frame_size \<le> length (audio_buffer t) \<and> server_frame cap thr t = (Some e, s')"
proof (induction cap thr s rule: server_frames.induct)
  case (1 cap thr s)
  show ?case
  proof (cases "frame_size \<le> length (audio_buffer s)")
    case False
    with "1.prems" show ?thesis
      by (simp add: server_frames.simps)
  next
    case True
    obtain r1 s1 where step: "server_frame cap thr s = (r1, s1)"
      by (cases "server_frame cap thr s")
    show ?thesis
    proof (cases r1)
      case (Some e1)
      with "1.prems" True step have "server_frame cap thr s = (Some e, s')"
        by (simp add: server_frames.simps)
      with True show ?thesis
        by blast
    next
      case None
      with "1.prems" True step have "server_frames cap thr s1 = (Some e, s')"
        by (simp add: server_frames.simps)
      from "1.IH" [OF True step [symmetric] None this] show ?thesis .
    qed
  qed
qed

lemma detector_frames_raise:
  "detector_frames cap a s = (Some e, s') \<Longrightarrow>
     \<exists>t. bytes_per_chunk \<le> length (buffer t) \<and> detector_frame cap a t = (Some e, s')"
proof (induction cap a s rule: detector_frames.induct)
  case (1 cap a s)
  show ?case
  proof (cases "bytes_per_chunk \<le> length (buffer s)")
    case False
    with "1.prems" show ?thesis
      by (simp add: detector_frames.simps)
  next
    case True
    obtain r1 s1 where step: "detector_frame cap a s = (r1, s1)"
      by (cases "detector_frame cap a s")
    show ?thesis
    proof (cases r1)
      case (Some e1)
      with "1.prems" True step have "detector_frame cap a s = (Some e, s')"
        by (simp add: detector_frames.simps)
      with True show ?thesis
        by blast
    next
      case None
      with "1.prems" True step have "detector_frames cap a s1 = (Some e, s')"
        by (simp add: detector_frames.simps)
      from "1.IH" [OF True step [symmetric] None this] show ?thesis .
    qed
  qed
qed

text \<open>
  C4 (amended). When the scoring call raises on the frame at the head of the buffer, the
  inner loop is left at once with that exception: the frame is consumed (and counted, in
  the server) and nothing is printed for it there. The handler of the outer loop then
  prints an error event in the server, and an error record in the detector only with
  \<^verbatim>\<open>--debug\<close>; in both variants the loop goes on with the next read, no byte is lost,
  and an iteration that ends without an exception leaves less than one frame in the
  buffer.
\<close>

theorem frame_failure:
  fixes cap :: "('m, score_value) scoring" and dcap :: "('n, real) scoring"
  shows
    "(frame_size \<le> length (audio_buffer t) \<and>
      decode (take frame_size (audio_buffer t)) = Inr audio \<and>
      predict cap (model t) audio = (Inl e, m') \<longrightarrow>
        server_frames cap threshold t
          = (Some e, t\<lparr>extracted := extracted t @ [take frame_size (audio_buffer t)],
                        audio_buffer := drop frame_size (audio_buffer t),
                        frames_processed := Suc (frames_processed t), model := m'\<rparr>)) \<and>
     (chunk \<noteq> [] \<and>
      server_frames cap threshold (s\<lparr>audio_buffer := audio_buffer s @ chunk\<rparr>) = (Some e, s')
        \<longrightarrow>
        server_loop cap threshold (chunk # reads) s
          = server_loop cap threshold reads (s'\<lparr>stdout := stdout s' @ [Error_event e]\<rparr>) \<and>
        (\<exists>evs. stdout (server_loop cap threshold (chunk # reads) s)
           = stdout s' @ Error_event e # evs) \<and>
        concat (extracted (server_loop cap threshold (chunk # reads) s))
            @ audio_buffer (server_loop cap threshold (chunk # reads) s)
          = concat (extracted s) @ audio_buffer s @ chunk @ fed reads) \<and>
     (server_frames cap threshold u = (None, u') \<longrightarrow> length (audio_buffer u') < frame_size) \<and>
     (bytes_per_chunk \<le> length (buffer dt) \<and>
      decode (take bytes_per_chunk (buffer dt)) = Inr audio \<and>
      predict dcap (oww_model dt) audio = (Inl e, n') \<longrightarrow>
        detector_frames dcap a dt
          = (Some e, dt\<lparr>extracted := extracted dt @ [take bytes_per_chunk (buffer dt)],
                         buffer := drop bytes_per_chunk (buffer dt), oww_model := n'\<rparr>)) \<and>
     (chunk \<noteq> [] \<and> detector_frames dcap a (d\<lparr>buffer := buffer d @ chunk\<rparr>) = (Some e, d')
        \<longrightarrow>
        detector_loop dcap a (chunk # reads) d
          = detector_loop dcap a reads
              (d'\<lparr>stdout := stdout d' @ (if args_debug a then [Error_record e] else [])\<rparr>) \<and>
        (\<exists>evs. stdout (detector_loop dcap a (chunk # reads) d)
           = stdout d' @ (if args_debug a then [Error_record e] else []) @ evs) \<and>
        concat (extracted (detector_loop dcap a (chunk # reads) d))
            @ buffer (detector_loop dcap a (chunk # reads) d)
          = concat (extracted d) @ buffer d @ chunk @ fed reads) \<and>
     (detector_frames dcap a du = (None, du') \<longrightarrow> length (buffer du') < bytes_per_chunk)"
proof -
  have s1: "frame_size \<le> length (audio_buffer t) \<and>
      decode (take frame_size (audio_buffer t)) = Inr audio \<and>
      predict cap (model t) audio = (Inl e, m') \<longrightarrow>
        server_frames cap threshold t
          = (Some e, t\<lparr>extracted := extracted t @ [take frame_size (audio_buffer t)],
                        audio_buffer := drop frame_size (audio_buffer t),
                        frames_processed := Suc (frames_processed t), model := m'\<rparr>)"
    by (simp add: server_frames.simps server_frame_def Let_def)
  have s2: "server_loop cap threshold (chunk # reads) s
          = server_loop cap threshold reads (s'\<lparr>stdout := stdout s' @ [Error_event e]\<rparr>) \<and>
        (\<exists>evs. stdout (server_loop cap threshold (chunk # reads) s)
           = stdout s' @ Error_event e # evs) \<and>
        concat (extracted (server_loop cap threshold (chunk # reads) s))
            @ audio_buffer (server_loop cap threshold (chunk # reads) s)
          = concat (extracted s) @ audio_buffer s @ chunk @ fed reads"
    if "chunk \<noteq> []"
      and "server_frames cap threshold (s\<lparr>audio_buffer := audio_buffer s @ chunk\<rparr>) = (Some e, s')"
  proof -
    let ?s2 = "s'\<lparr>stdout := stdout s' @ [Error_event e]\<rparr>"
    have loop: "server_loop cap threshold (chunk # reads) s = server_loop cap threshold reads ?s2"
      using that by (simp add: emit_def)
    from server_loop_effect [of cap threshold reads ?s2]
    have "\<exists>evs. stdout (server_loop cap threshold reads ?s2) = stdout s' @ Error_event e # evs"
      by auto
    moreover from server_loop_effect [of cap threshold "chunk # reads" s] that(1)
    have "concat (extracted (server_loop cap threshold (chunk # reads) s))
            @ audio_buffer (server_loop cap threshold (chunk # reads) s)
          = concat (extracted s) @ audio_buffer s @ chunk @ fed reads"
      by simp
    ultimately show ?thesis
      using loop by simp
  qed
  have s3: "server_frames cap threshold u = (None, u') \<longrightarrow> length (audio_buffer u') < frame_size"
    using server_frames_effect [of cap threshold u None u'] by simp
  have d1: "bytes_per_chunk \<le> length (buffer dt) \<and>
      decode (take bytes_per_chunk (buffer dt)) = Inr audio \<and>
      predict dcap (oww_model dt) audio = (Inl e, n') \<longrightarrow>
        detector_frames dcap a dt
          = (Some e, dt\<lparr>extracted := extracted dt @ [take bytes_per_chunk (buffer dt)],
                         buffer := drop bytes_per_chunk (buffer dt), oww_model := n'\<rparr>)"
    by (simp add: detector_frames.simps detector_frame_def Let_def)
  have d2: "detector_loop dcap a (chunk # reads) d
          = detector_loop dcap a reads
              (d'\<lparr>stdout := stdout d' @ (if args_debug a then [Error_record e] else [])\<rparr>) \<and>
        (\<exists>evs. stdout (detector_loop dcap a (chunk # reads) d)
           = stdout d' @ (if args_debug a then [Error_record e] else []) @ evs) \<and>
        concat (extracted (detector_loop dcap a (chunk # reads) d))
            @ buffer (detector_loop dcap a (chunk # reads) d)
          = concat (extracted d) @ buffer d @ chunk @ fed reads"
    if "chunk \<noteq> []"
      and "detector_frames dcap a (d\<lparr>buffer := buffer d @ chunk\<rparr>) = (Some e, d')"
  proof -
    let ?d2 = "d'\<lparr>stdout := stdout d' @ (if args_debug a then [Error_record e] else [])\<rparr>"
    have loop: "detector_loop dcap a (chunk # reads) d = detector_loop dcap a reads ?d2"
      using that by (simp add: emit_def)
    from detector_loop_effect [of dcap a reads ?d2]
    have "\<exists>evs. stdout (detector_loop dcap a reads ?d2)
        = stdout d' @ (if args_debug a then [Error_record e] else []) @ evs"
      by auto
    moreover from detector_loop_effect [of dcap a "chunk # reads" d] that(1)
    have "concat (extracted (detector_loop dcap a (chunk # reads) d))
            @ buffer (detector_loop dcap a (chunk # reads) d)
          = concat (extracted d) @ buffer d @ chunk @ fed reads"
      by simp
    ultimately show ?thesis
      using loop by simp
  qed
  have d3: "detector_frames dcap a du = (None, du') \<longrightarrow> length (buffer du') < bytes_per_chunk"
    using detector_frames_effect [of dcap a du None du'] by simp
  from s1 s2 s3 d1 d2 d3 show ?thesis
    by blast
qed

text \<open>
  Two reads of one frame each, the model raising on the first frame. The server prints the
  error event and scores the second frame; the detector without \<^verbatim>\<open>--debug\<close> scores the
  second frame and prints nothing.
\<close>

lemma raised_first:
  "server_frames (fails_on 1 (Scalar 0)) (1 / 2)
     ((server_init ''hey_jarvis'' (1 / 2) 0)
        \<lparr>audio_buffer := audio_buffer (server_init ''hey_jarvis'' (1 / 2) 0) @ replicate 2560 0\<rparr>)
   = (Some ''model error'',
      \<lparr>stdout = [Server_ready ''hey_jarvis'' (1 / 2) 1280], extracted = [replicate 2560 0],
       audio_buffer = [], frames_processed = 1, max_score = 0, model = 1,
       observed = []\<rparr>)"
  by (simp add: server_init_def fails_on_def server_frames.simps server_frame_def
      frame_size_def CHUNK_SIZE_def decode_even Let_def emit_def)

lemma raised_first_detector:
  "detector_frames (fails_on 1 0) default_args
     ((detector_init [] 0)\<lparr>buffer := buffer (detector_init [] 0) @ replicate 2560 0\<rparr>)
   = (Some ''model error'',
      \<lparr>stdout = [], extracted = [replicate 2560 0], buffer = [], oww_model = 1\<rparr>)"
  by (simp add: detector_init_def fails_on_def detector_frames.simps detector_frame_def
      bytes_per_chunk_def CHUNK_SIZE_def decode_even Let_def emit_def)

theorem frame_failure_witness:
  "replicate 2560 (0 :: byte) \<noteq> [] \<and>
   server_frames (fails_on 1 (Scalar 0)) (1 / 2)
     ((server_init ''hey_jarvis'' (1 / 2) 0)
        \<lparr>audio_buffer := audio_buffer (server_init ''hey_jarvis'' (1 / 2) 0) @ replicate 2560 0\<rparr>)
   = (Some ''model error'',
      \<lparr>stdout = [Server_ready ''hey_jarvis'' (1 / 2) 1280], extracted = [replicate 2560 0],
       audio_buffer = [], frames_processed = 1, max_score = 0, model = 1,
       observed = []\<rparr>) \<and>
   server_loop (fails_on 1 (Scalar 0)) (1 / 2) [replicate 2560 0, replicate 2560 0]
     (server_init ''hey_jarvis'' (1 / 2) 0)
   = \<lparr>stdout = [Server_ready ''hey_jarvis'' (1 / 2) 1280, Error_event ''model error''],
      extracted = [replicate 2560 0, replicate 2560 0],
      audio_buffer = [], frames_processed = 2, max_score = 0, model = 2,
       observed = [(2, 0)]\<rparr> \<and>
   detector_frames (fails_on 1 0) default_args
     ((detector_init [] 0)\<lparr>buffer := buffer (detector_init [] 0) @ replicate 2560 0\<rparr>)
   = (Some ''model error'',
      \<lparr>stdout = [], extracted = [replicate 2560 0], buffer = [], oww_model = 1\<rparr>) \<and>
   detector_loop (fails_on 1 0) default_args [replicate 2560 0, replicate 2560 0]
     (detector_init [] 0)
   = \<lparr>stdout = [], extracted = [replicate 2560 0, replicate 2560 0], buffer = [],
      oww_model = 2\<rparr>"
proof -
  have ne: "replicate 2560 (0 :: byte) \<noteq> []"
    by simp
  note inst = frame_failure [where cap = "fails_on 1 (Scalar 0)" and threshold = "1 / 2"
      and chunk = "replicate 2560 0" and reads = "[replicate 2560 0]" and e = "''model error''"
      and s = "server_init ''hey_jarvis'' (1 / 2) 0"
      and dcap = "fails_on 1 0" and a = default_args and d = "detector_init [] 0"]
  define s1 :: "nat server_state" where
    "s1 = \<lparr>stdout = [Server_ready ''hey_jarvis'' (1 / 2) 1280],
        extracted = [replicate 2560 0], audio_buffer = [], frames_processed = 1,
        max_score = 0, model = 1,
       observed = []\<rparr>"
  define d1 :: "nat detector_state" where
    "d1 = \<lparr>stdout = [], extracted = [replicate 2560 0], buffer = [], oww_model = 1\<rparr>"
  from inst [where s' = s1 and d' = d1] ne raised_first [folded s1_def]
  have "server_loop (fails_on 1 (Scalar 0)) (1 / 2) [replicate 2560 0, replicate 2560 0]
     (server_init ''hey_jarvis'' (1 / 2) 0)
   = server_loop (fails_on 1 (Scalar 0)) (1 / 2) [replicate 2560 0]
      (s1\<lparr>stdout := stdout s1 @ [Error_event ''model error'']\<rparr>)"
    by blast
  also have "\<dots> = \<lparr>stdout = [Server_ready ''hey_jarvis'' (1 / 2) 1280,
        Error_event ''model error''],
      extracted = [replicate 2560 0, replicate 2560 0],
      audio_buffer = [], frames_processed = 2, max_score = 0, model = 2,
       observed = [(2, 0)]\<rparr>"
    by (simp add: s1_def fails_on_def server_frames.simps server_frame_def
      frame_size_def CHUNK_SIZE_def decode_even Let_def emit_def)
  finally have server: "server_loop (fails_on 1 (Scalar 0)) (1 / 2)
      [replicate 2560 0, replicate 2560 0] (server_init ''hey_jarvis'' (1 / 2) 0)
   = \<lparr>stdout = [Server_ready ''hey_jarvis'' (1 / 2) 1280, Error_event ''model error''],
      extracted = [replicate 2560 0, replicate 2560 0],
      audio_buffer = [], frames_processed = 2, max_score = 0, model = 2,
       observed = [(2, 0)]\<rparr>" .
  from inst [where s' = s1 and d' = d1] ne raised_first_detector [folded d1_def]
  have "detector_loop (fails_on 1 0) default_args [replicate 2560 0, replicate 2560 0]
     (detector_init [] 0)
   = detector_loop (fails_on 1 0) default_args [replicate 2560 0]
      (d1\<lparr>stdout := stdout d1
          @ (if args_debug default_args then [Error_record ''model error''] else [])\<rparr>)"
    by blast
  also have "\<dots> = \<lparr>stdout = [], extracted = [replicate 2560 0, replicate 2560 0],
      buffer = [], oww_model = 2\<rparr>"
    by (simp add: d1_def fails_on_def detector_frames.simps detector_frame_def default_args_def
      bytes_per_chunk_def CHUNK_SIZE_def decode_even Let_def emit_def)
  finally have detector: "detector_loop (fails_on 1 0) default_args
      [replicate 2560 0, replicate 2560 0] (detector_init [] 0)
   = \<lparr>stdout = [], extracted = [replicate 2560 0, replicate 2560 0], buffer = [],
      oww_model = 2\<rparr>" .
  from ne raised_first raised_first_detector server detector show ?thesis
    by blast
qed

text \<open>
  The claim as stated fails for the detector: run with its defaults (no \<^verbatim>\<open>--debug\<close>) on
  two frames with a model that raises on the first, it prints the ready and the stopped
  record and no error record.
\<close>

theorem frame_failure_counterexample:
  "detector_main (fails_on 1 0) detector_host (Namespace default_args)
      [replicate 2560 0, replicate 2560 0]
     = ([Detector_ready ''hey_jarvis'' (13 / 20) [Vad (3 / 10)], Stopped], 0)"
  by (simp add: detector_main_def detector_host_def default_args_def detector_init_def
      fails_on_def detector_frames.simps detector_frame_def
      bytes_per_chunk_def CHUNK_SIZE_def decode_even Let_def emit_def)

section \<open>Frames left in the buffer by an exception\<close>

lemma server_frames_raise_extracts:
  "server_frames cap thr s = (Some e, s') \<Longrightarrow> length (extracted s) < length (extracted s')"
proof (induction cap thr s rule: server_frames.induct)
  case (1 cap thr s)
  show ?case
  proof (cases "frame_size \<le> length (audio_buffer s)")
    case False
    with "1.prems" show ?thesis
      by (simp add: server_frames.simps)
  next
    case True
    obtain r1 s1 where step: "server_frame cap thr s = (r1, s1)"
      by (cases "server_frame cap thr s")
    note eff = server_frame_effect [OF step]
    show ?thesis
    proof (cases r1)
      case (Some e1)
      with "1.prems" True step have "s' = s1"
        by (simp add: server_frames.simps)
      with eff show ?thesis
        by simp
    next
      case None
      with "1.prems" True step have "server_frames cap thr s1 = (Some e, s')"
        by (simp add: server_frames.simps)
      from "1.IH" [OF True step [symmetric] None this] eff show ?thesis
        by simp
    qed
  qed
qed

lemma detector_frames_raise_extracts:
  "detector_frames cap a s = (Some e, s') \<Longrightarrow> length (extracted s) < length (extracted s')"
proof (induction cap a s rule: detector_frames.induct)
  case (1 cap a s)
  show ?case
  proof (cases "bytes_per_chunk \<le> length (buffer s)")
    case False
    with "1.prems" show ?thesis
      by (simp add: detector_frames.simps)
  next
    case True
    obtain r1 s1 where step: "detector_frame cap a s = (r1, s1)"
      by (cases "detector_frame cap a s")
    note eff = detector_frame_effect [OF step]
    show ?thesis
    proof (cases r1)
      case (Some e1)
      with "1.prems" True step have "s' = s1"
        by (simp add: detector_frames.simps)
      with eff show ?thesis
        by simp
    next
      case None
      with "1.prems" True step have "detector_frames cap a s1 = (Some e, s')"
        by (simp add: detector_frames.simps)
      from "1.IH" [OF True step [symmetric] None this] eff show ?thesis
        by simp
    qed
  qed
qed

lemma server_raise_leaves:
  assumes "server_frames cap thr (s\<lparr>audio_buffer := audio_buffer s @ chunk\<rparr>) = (Some e, s')"
  shows "\<exists>fs. fs \<noteq> [] \<and> extracted s' = extracted s @ fs \<and>
           (\<forall>f\<in>set fs. length f = frame_size) \<and>
           concat fs @ audio_buffer s' = audio_buffer s @ chunk"
proof -
  let ?s0 = "s\<lparr>audio_buffer := audio_buffer s @ chunk\<rparr>"
  from server_frames_effect [OF assms] obtain fs where
    fs: "extracted s' = extracted s @ fs" "\<forall>f\<in>set fs. length f = frame_size"
    and all: "concat (extracted s') @ audio_buffer s' = concat (extracted s) @ audio_buffer s @ chunk"
    by auto
  from server_frames_raise_extracts [OF assms] fs(1) have "fs \<noteq> []"
    by auto
  moreover from all fs(1) have "concat fs @ audio_buffer s' = audio_buffer s @ chunk"
    by simp
  ultimately show ?thesis
    using fs by blast
qed

lemma detector_raise_leaves:
  assumes "detector_frames cap a (s\<lparr>buffer := buffer s @ chunk\<rparr>) = (Some e, s')"
  shows "\<exists>fs. fs \<noteq> [] \<and> extracted s' = extracted s @ fs \<and>
           (\<forall>f\<in>set fs. length f = bytes_per_chunk) \<and>
           concat fs @ buffer s' = buffer s @ chunk"
proof -
  from detector_frames_effect [OF assms] obtain fs where
    fs: "extracted s' = extracted s @ fs" "\<forall>f\<in>set fs. length f = bytes_per_chunk"
    and all: "concat (extracted s') @ buffer s' = concat (extracted s) @ buffer s @ chunk"
    by auto
  from detector_frames_raise_extracts [OF assms] fs(1) have "fs \<noteq> []"
    by auto
  moreover from all fs(1) have "concat fs @ buffer s' = buffer s @ chunk"
    by simp
  ultimately show ?thesis
    using fs by blast
qed

text \<open>
  C10. Take an iteration of the outer loop in which a frame raises. The inner loop ends
  with that frame: the frames sliced off in the iteration, the failing one last, are
  followed in the stream by whatever the buffer still holds, complete frames included,
  and none of it has been scored. The handler goes back to \<^verbatim>\<open>read\<close>: the rest of the
  buffer is looked at again only in the next iteration, after a read that returns data,
  and when the next read returns no bytes the loop ends in this very state, so those
  frames are never processed.
\<close>

theorem buffered_frames_wait:
  fixes cap :: "('m, score_value) scoring" and dcap :: "('n, real) scoring"
  shows
    "(chunk \<noteq> [] \<and>
      server_frames cap threshold (s\<lparr>audio_buffer := audio_buffer s @ chunk\<rparr>) = (Some e, s')
        \<longrightarrow>
        (\<exists>fs. fs \<noteq> [] \<and> extracted s' = extracted s @ fs \<and>
           (\<forall>f\<in>set fs. length f = frame_size) \<and>
           concat fs @ audio_buffer s' = audio_buffer s @ chunk) \<and>
        (\<exists>t. frame_size \<le> length (audio_buffer t) \<and>
           server_frame cap threshold t = (Some e, s')) \<and>
        server_loop cap threshold [chunk] s = s'\<lparr>stdout := stdout s' @ [Error_event e]\<rparr> \<and>
        server_loop cap threshold (chunk # [] # reads) s
          = s'\<lparr>stdout := stdout s' @ [Error_event e]\<rparr> \<and>
        (later \<noteq> [] \<longrightarrow>
           server_loop cap threshold (chunk # later # reads) s
             = server_loop cap threshold (later # reads)
                 (s'\<lparr>stdout := stdout s' @ [Error_event e]\<rparr>))) \<and>
     (chunk \<noteq> [] \<and> detector_frames dcap a (d\<lparr>buffer := buffer d @ chunk\<rparr>) = (Some e, d')
        \<longrightarrow>
        (\<exists>fs. fs \<noteq> [] \<and> extracted d' = extracted d @ fs \<and>
           (\<forall>f\<in>set fs. length f = bytes_per_chunk) \<and>
           concat fs @ buffer d' = buffer d @ chunk) \<and>
        (\<exists>t. bytes_per_chunk \<le> length (buffer t) \<and>
           detector_frame dcap a t = (Some e, d')) \<and>
        detector_loop dcap a [chunk] d
          = d'\<lparr>stdout := stdout d' @ (if args_debug a then [Error_record e] else [])\<rparr> \<and>
        detector_loop dcap a (chunk # [] # reads) d
          = d'\<lparr>stdout := stdout d' @ (if args_debug a then [Error_record e] else [])\<rparr> \<and>
        (later \<noteq> [] \<longrightarrow>
           detector_loop dcap a (chunk # later # reads) d
             = detector_loop dcap a (later # reads)
                 (d'\<lparr>stdout := stdout d'
                      @ (if args_debug a then [Error_record e] else [])\<rparr>)))"
proof -
  have server: "(\<exists>fs. fs \<noteq> [] \<and> extracted s' = extracted s @ fs \<and>
           (\<forall>f\<in>set fs. length f = frame_size) \<and>
           concat fs @ audio_buffer s' = audio_buffer s @ chunk) \<and>
        (\<exists>t. frame_size \<le> length (audio_buffer t) \<and>
           server_frame cap threshold t = (Some e, s')) \<and>
        server_loop cap threshold [chunk] s = s'\<lparr>stdout := stdout s' @ [Error_event e]\<rparr> \<and>
        server_loop cap threshold (chunk # [] # reads) s
          = s'\<lparr>stdout := stdout s' @ [Error_event e]\<rparr> \<and>
        (later \<noteq> [] \<longrightarrow>
           server_loop cap threshold (chunk # later # reads) s
             = server_loop cap threshold (later # reads)
                 (s'\<lparr>stdout := stdout s' @ [Error_event e]\<rparr>))"
    if "chunk \<noteq> []"
      and "server_frames cap threshold (s\<lparr>audio_buffer := audio_buffer s @ chunk\<rparr>) = (Some e, s')"
  proof -
    have "server_loop cap threshold (chunk # rest) s
        = server_loop cap threshold rest (s'\<lparr>stdout := stdout s' @ [Error_event e]\<rparr>)" for rest
      using that by (simp add: emit_def)
    then have "server_loop cap threshold [chunk] s = s'\<lparr>stdout := stdout s' @ [Error_event e]\<rparr>"
      and "server_loop cap threshold (chunk # [] # reads) s
          = s'\<lparr>stdout := stdout s' @ [Error_event e]\<rparr>"
      and "server_loop cap threshold (chunk # later # reads) s
             = server_loop cap threshold (later # reads)
                 (s'\<lparr>stdout := stdout s' @ [Error_event e]\<rparr>)"
      by simp_all
    with server_raise_leaves [OF that(2)] server_frames_raise [OF that(2)] show ?thesis
      by blast
  qed
  have detector: "(\<exists>fs. fs \<noteq> [] \<and> extracted d' = extracted d @ fs \<and>
           (\<forall>f\<in>set fs. length f = bytes_per_chunk) \<and>
           concat fs @ buffer d' = buffer d @ chunk) \<and>
        (\<exists>t. bytes_per_chunk \<le> length (buffer t) \<and>
           detector_frame dcap a t = (Some e, d')) \<and>
        detector_loop dcap a [chunk] d
          = d'\<lparr>stdout := stdout d' @ (if args_debug a then [Error_record e] else [])\<rparr> \<and>
        detector_loop dcap a (chunk # [] # reads) d
          = d'\<lparr>stdout := stdout d' @ (if args_debug a then [Error_record e] else [])\<rparr> \<and>
        (later \<noteq> [] \<longrightarrow>
           detector_loop dcap a (chunk # later # reads) d
             = detector_loop dcap a (later # reads)
                 (d'\<lparr>stdout := stdout d'
                      @ (if args_debug a then [Error_record e] else [])\<rparr>))"
    if "chunk \<noteq> []"
      and "detector_frames dcap a (d\<lparr>buffer := buffer d @ chunk\<rparr>) = (Some e, d')"
  proof -
    have "detector_loop dcap a (chunk # rest) d
        = detector_loop dcap a rest
            (d'\<lparr>stdout := stdout d' @ (if args_debug a then [Error_record e] else [])\<rparr>)"
      for rest
      using that by (simp add: emit_def)
    then have "detector_loop dcap a [chunk] d
          = d'\<lparr>stdout := stdout d' @ (if args_debug a then [Error_record e] else [])\<rparr>"
      and "detector_loop dcap a (chunk # [] # reads) d
          = d'\<lparr>stdout := stdout d' @ (if args_debug a then [Error_record e] else [])\<rparr>"
      and "detector_loop dcap a (chunk # later # reads) d
             = detector_loop dcap a (later # reads)
                 (d'\<lparr>stdout := stdout d'
                      @ (if args_debug a then [Error_record e] else [])\<rparr>)"
      by simp_all
    with detector_raise_leaves [OF that(2)] detector_frames_raise [OF that(2)] show ?thesis
      by blast
  qed
  from server detector show ?thesis
    by blast
qed

text \<open>
  The server after a first read of 4096 bytes (one frame scored, 1536 bytes buffered)
  receives 4096 bytes more, and the model raises on the second frame: the third frame,
  complete, stays in the buffer (3072 bytes), and with the stream ending there it is never
  scored. The detector, fed one frame on which the model raises, goes on the same way.
\<close>

lemma raised_second:
  "server_frames (fails_on 2 (Scalar 0)) (1 / 2)
     (\<lparr>stdout = [Server_ready ''hey_jarvis'' (1 / 2) 1280], extracted = [replicate 2560 0],
       audio_buffer = replicate 1536 0, frames_processed = 1, max_score = 0, model = 1,
       observed = [(1, 0)]\<rparr>
      \<lparr>audio_buffer :=
         audio_buffer
           \<lparr>stdout = [Server_ready ''hey_jarvis'' (1 / 2) 1280], extracted = [replicate 2560 0],
            audio_buffer = replicate 1536 0, frames_processed = 1, max_score = 0,
            model = 1 :: nat,
       observed = [(1, 0)]\<rparr>
         @ replicate 4096 0\<rparr>)
   = (Some ''model error'',
      \<lparr>stdout = [Server_ready ''hey_jarvis'' (1 / 2) 1280],
       extracted = [replicate 2560 0, replicate 1536 0 @ replicate 1024 0],
       audio_buffer = replicate 3072 0, frames_processed = 2, max_score = 0, model = 2,
       observed = [(1, 0)]\<rparr>)"
  by (simp add: fails_on_def server_frames.simps server_frame_def
      frame_size_def CHUNK_SIZE_def decode_even Let_def emit_def)

theorem buffered_frames_wait_witness:
  "replicate 4096 (0 :: byte) \<noteq> [] \<and>
   server_frames (fails_on 2 (Scalar 0)) (1 / 2)
     (\<lparr>stdout = [Server_ready ''hey_jarvis'' (1 / 2) 1280], extracted = [replicate 2560 0],
       audio_buffer = replicate 1536 0, frames_processed = 1, max_score = 0, model = 1,
       observed = [(1, 0)]\<rparr>
      \<lparr>audio_buffer :=
         audio_buffer
           \<lparr>stdout = [Server_ready ''hey_jarvis'' (1 / 2) 1280], extracted = [replicate 2560 0],
            audio_buffer = replicate 1536 0, frames_processed = 1, max_score = 0,
            model = 1 :: nat,
       observed = [(1, 0)]\<rparr>
         @ replicate 4096 0\<rparr>)
   = (Some ''model error'',
      \<lparr>stdout = [Server_ready ''hey_jarvis'' (1 / 2) 1280],
       extracted = [replicate 2560 0, replicate 1536 0 @ replicate 1024 0],
       audio_buffer = replicate 3072 0, frames_processed = 2, max_score = 0, model = 2,
       observed = [(1, 0)]\<rparr>) \<and>
   server_loop (fails_on 2 (Scalar 0)) (1 / 2) [replicate 4096 0]
     \<lparr>stdout = [Server_ready ''hey_jarvis'' (1 / 2) 1280], extracted = [replicate 2560 0],
      audio_buffer = replicate 1536 0, frames_processed = 1, max_score = 0, model = 1,
       observed = [(1, 0)]\<rparr>
   = \<lparr>stdout = [Server_ready ''hey_jarvis'' (1 / 2) 1280, Error_event ''model error''],
      extracted = [replicate 2560 0, replicate 1536 0 @ replicate 1024 0],
      audio_buffer = replicate 3072 0, frames_processed = 2, max_score = 0, model = 2,
       observed = [(1, 0)]\<rparr> \<and>
   frame_size \<le> length (replicate 3072 (0 :: byte)) \<and>
   replicate 2560 (0 :: byte) \<noteq> [] \<and>
   detector_frames (fails_on 1 0) default_args
     ((detector_init [] 0)\<lparr>buffer := buffer (detector_init [] 0) @ replicate 2560 0\<rparr>)
   = (Some ''model error'',
      \<lparr>stdout = [], extracted = [replicate 2560 0], buffer = [], oww_model = 1\<rparr>) \<and>
   detector_loop (fails_on 1 0) default_args [replicate 2560 0] (detector_init [] 0)
   = \<lparr>stdout = [], extracted = [replicate 2560 0], buffer = [], oww_model = 1\<rparr>"
proof -
  define s1 :: "nat server_state" where
    "s1 = \<lparr>stdout = [Server_ready ''hey_jarvis'' (1 / 2) 1280], extracted = [replicate 2560 0],
       audio_buffer = replicate 1536 0, frames_processed = 1, max_score = 0, model = 1,
       observed = [(1, 0)]\<rparr>"
  define s2 :: "nat server_state" where
    "s2 = \<lparr>stdout = [Server_ready ''hey_jarvis'' (1 / 2) 1280],
       extracted = [replicate 2560 0, replicate 1536 0 @ replicate 1024 0],
       audio_buffer = replicate 3072 0, frames_processed = 2, max_score = 0, model = 2,
       observed = [(1, 0)]\<rparr>"
  define d1 :: "nat detector_state" where
    "d1 = \<lparr>stdout = [], extracted = [replicate 2560 0], buffer = [], oww_model = 1\<rparr>"
  have ne: "replicate 4096 (0 :: byte) \<noteq> []" "replicate 2560 (0 :: byte) \<noteq> []"
    by simp_all
  have big: "frame_size \<le> length (replicate 3072 (0 :: byte))"
    by (simp add: frame_size_def CHUNK_SIZE_def)
  note server = raised_second [folded s1_def s2_def]
  note detector = raised_first_detector [folded d1_def]
  from buffered_frames_wait [where cap = "fails_on 2 (Scalar 0)" and threshold = "1 / 2"
      and chunk = "replicate 4096 0" and s = s1 and s' = s2 and e = "''model error''"
      and dcap = "fails_on 1 0" and a = default_args and d = "detector_init [] 0" and d' = d1]
    ne(1) server
  have "server_loop (fails_on 2 (Scalar 0)) (1 / 2) [replicate 4096 0] s1
      = s2\<lparr>stdout := stdout s2 @ [Error_event ''model error'']\<rparr>"
    by blast
  then have a: "server_loop (fails_on 2 (Scalar 0)) (1 / 2) [replicate 4096 0] s1
      = \<lparr>stdout = [Server_ready ''hey_jarvis'' (1 / 2) 1280, Error_event ''model error''],
      extracted = [replicate 2560 0, replicate 1536 0 @ replicate 1024 0],
      audio_buffer = replicate 3072 0, frames_processed = 2, max_score = 0, model = 2,
       observed = [(1, 0)]\<rparr>"
    by (simp add: s2_def)
  from buffered_frames_wait [where cap = "fails_on 2 (Scalar 0)" and threshold = "1 / 2"
      and chunk = "replicate 2560 0" and s = s1 and s' = s2 and e = "''model error''"
      and dcap = "fails_on 1 0" and a = default_args and d = "detector_init [] 0" and d' = d1]
    ne(2) detector
  have "detector_loop (fails_on 1 0) default_args [replicate 2560 0] (detector_init [] 0)
      = d1\<lparr>stdout := stdout d1
            @ (if args_debug default_args then [Error_record ''model error''] else [])\<rparr>"
    by blast
  then have b: "detector_loop (fails_on 1 0) default_args [replicate 2560 0] (detector_init [] 0)
      = \<lparr>stdout = [], extracted = [replicate 2560 0], buffer = [], oww_model = 1\<rparr>"
    by (simp add: d1_def default_args_def)
  from ne big server detector a b show ?thesis
    unfolding s1_def s2_def d1_def by blast
qed

section \<open>Telemetry\<close>
























end
